theory Spec2Isabelle
  imports Main
begin

section \<open>Paths\<close>

text \<open>
  A \<^verbatim>\<open>pathlib.Path\<close> is compared, hashed and taken apart by its text alone: whether it
  is anchored at the root, and its components. \<^verbatim>\<open>p.parent\<close> drops the last component and
  leaves the root and the current directory as they are, \<^verbatim>\<open>p.name\<close> is the last
  component (empty for the root and the current directory).
\<close>

datatype path = Path (absolute: bool) (parts: "string list")

definition parent :: "path \<Rightarrow> path" where
  "parent p = Path (absolute p) (butlast (parts p))"

definition name :: "path \<Rightarrow> string" where
  "name p = (case parts p of [] \<Rightarrow> [] | _ \<Rightarrow> last (parts p))"

definition joinpath :: "path \<Rightarrow> string \<Rightarrow> path" where
  "joinpath d n = (if n = [] then d else Path (absolute d) (parts d @ [n]))"

text \<open>
  \<^verbatim>\<open>str.rfind\<close>: the index of the last occurrence, \<open>-1\<close> when there is none.
\<close>

fun rfind_from :: "string \<Rightarrow> char \<Rightarrow> int \<Rightarrow> int \<Rightarrow> int" where
  "rfind_from [] c i found = found"
| "rfind_from (x # xs) c i found = rfind_from xs c (i + 1) (if x = c then i else found)"

definition rfind :: "string \<Rightarrow> char \<Rightarrow> int" where
  "rfind s c = rfind_from s c 0 (- 1)"

text \<open>
  \<^verbatim>\<open>p.suffix\<close> and \<^verbatim>\<open>p.stem\<close> split the name at its last dot, unless that dot opens or
  closes the name.
\<close>

definition suffix :: "path \<Rightarrow> string" where
  "suffix p =
     (let n = name p; i = rfind n (CHR ''.'')
      in if 0 < i \<and> i < int (length n) - 1 then drop (nat i) n else [])"

definition stem :: "path \<Rightarrow> string" where
  "stem p =
     (let n = name p; i = rfind n (CHR ''.'')
      in if 0 < i \<and> i < int (length n) - 1 then take (nat i) n else n)"

section \<open>Exceptions and the file system\<close>

datatype exc =
    FileNotFoundError
  | NotADirectoryError
  | IsADirectoryError
  | FileExistsError
  | OSError
  | ShutilError
  | ValueError
  | IndexError
  | TypeError
  | UnidentifiedImageError
  | SystemExit int

text \<open>
  The file system is a table from paths to entries, in enumeration order. A regular file
  carries its content; the root and the current directory (the paths without components)
  are always directories. Paths are taken by their text, as the program compares them: two
  spellings of one location, and links, are outside the model.
\<close>

type_synonym content = nat

datatype entry = File content | Dir

type_synonym fs = "(path \<times> entry) list"

definition lookup :: "fs \<Rightarrow> path \<Rightarrow> entry option" where
  "lookup fs p = (if parts p = [] then Some Dir else map_of fs p)"

definition is_dir :: "fs \<Rightarrow> path \<Rightarrow> bool" where
  "is_dir fs p = (lookup fs p = Some Dir)"

definition is_file :: "fs \<Rightarrow> path \<Rightarrow> bool" where
  "is_file fs p = (case lookup fs p of Some (File c) \<Rightarrow> True | _ \<Rightarrow> False)"

definition exists :: "fs \<Rightarrow> path \<Rightarrow> bool" where
  "exists fs p = (lookup fs p \<noteq> None)"

text \<open>
  \<^verbatim>\<open>directory.glob("*")\<close>: the immediate entries of a directory, of any kind, each as
  \<^verbatim>\<open>directory / name\<close>; nothing when the path is not a directory.
\<close>

definition glob :: "fs \<Rightarrow> path \<Rightarrow> path list" where
  "glob fs directory =
     (if is_dir fs directory
      then filter (\<lambda>p. parts p \<noteq> [] \<and> parent p = directory) (remdups (map fst fs))
      else [])"

section \<open>Fingerprints and the per-directory scan\<close>

type_synonym signature = int

text \<open>
  What the program takes from outside: the perceptual hash of a file's content (opening and
  decoding may raise), the order in which \<^verbatim>\<open>as_completed\<close> hands back the submitted
  tasks, the draws of \<^verbatim>\<open>random.randint\<close> (one per file moved), and the argument parser.
\<close>

record namespace =
  main_directory :: path
  directories :: "path list"
  output_arg :: "path option"
  jobs :: int
  verbosity :: int

record env =
  phash :: "content \<Rightarrow> exc + signature"
  as_completed :: "path list \<Rightarrow> path list"
  draw :: "path \<Rightarrow> nat"
  parse_args :: "string list \<Rightarrow> exc + namespace"

definition get_image_signature :: "env \<Rightarrow> fs \<Rightarrow> path \<Rightarrow> exc + signature" where
  "get_image_signature E fs image_path =
     (case lookup fs image_path of
        None \<Rightarrow> Inl FileNotFoundError
      | Some Dir \<Rightarrow> Inl IsADirectoryError
      | Some (File c) \<Rightarrow> phash E c)"

definition sign_image :: "env \<Rightarrow> fs \<Rightarrow> path \<Rightarrow> exc + (path \<times> signature)" where
  "sign_image E fs img =
     (case get_image_signature E fs img of Inl e \<Rightarrow> Inl e | Inr s \<Rightarrow> Inr (img, s))"

text \<open>
  A \<^verbatim>\<open>defaultdict(list)\<close> keeps its keys in insertion order; \<^verbatim>\<open>d[k].extend(vs)\<close> adds to
  the list of \<open>k\<close>, creating the key at the end when it is new.
\<close>

type_synonym signature_map = "(signature \<times> path list) list"

fun dict_extend :: "signature \<Rightarrow> path list \<Rightarrow> signature_map \<Rightarrow> signature_map" where
  "dict_extend k vs [] = [(k, vs)]"
| "dict_extend k vs ((k', ws) # d) =
     (if k = k' then (k', ws @ vs) # d else (k', ws) # dict_extend k vs d)"

definition group_of :: "signature_map \<Rightarrow> signature \<Rightarrow> path list" where
  "group_of d k = (case map_of d k of None \<Rightarrow> [] | Some ws \<Rightarrow> ws)"

text \<open>
  The loop over the completed tasks of \<^verbatim>\<open>process_directory_images\<close>: a task that raised is
  logged and left out, a result is appended to the list of its signature.
\<close>

fun collect :: "(exc + path \<times> signature) list \<Rightarrow> signature_map \<Rightarrow> signature_map" where
  "collect [] images_signatures = images_signatures"
| "collect (Inl e # futures) images_signatures = collect futures images_signatures"
| "collect (Inr (img, signature) # futures) images_signatures =
     collect futures (dict_extend signature [img] images_signatures)"

definition process_directory_images :: "env \<Rightarrow> fs \<Rightarrow> path \<Rightarrow> signature_map" where
  "process_directory_images E fs directory =
     collect (map (sign_image E fs) (as_completed E (glob fs directory))) []"

section \<open>Directory order, merge and plan\<close>

definition resolved_output :: "namespace \<Rightarrow> path" where
  "resolved_output ns =
     (case output_arg ns of None \<Rightarrow> main_directory ns | Some out \<Rightarrow> out)"

definition dir_list :: "namespace \<Rightarrow> path list" where
  "dir_list ns =
     (let ds = main_directory ns # directories ns
      in if resolved_output ns \<in> set ds then ds else resolved_output ns # ds)"

fun extend_all :: "signature_map \<Rightarrow> signature_map \<Rightarrow> signature_map" where
  "extend_all images_id [] = images_id"
| "extend_all images_id ((signature, image_files) # signature_map) =
     extend_all (dict_extend signature image_files images_id) signature_map"

fun merge_results :: "signature_map list \<Rightarrow> signature_map \<Rightarrow> signature_map" where
  "merge_results [] images_id = images_id"
| "merge_results (signature_map # results) images_id =
     merge_results results (extend_all images_id signature_map)"

definition images_id :: "env \<Rightarrow> fs \<Rightarrow> path list \<Rightarrow> signature_map" where
  "images_id E fs dirs = merge_results (map (process_directory_images E fs) dirs) []"

text \<open>
  The planning loop of \<^verbatim>\<open>main\<close>, with its two accumulators. \<^verbatim>\<open>image_files[0]\<close> raises on
  an empty list.
\<close>

fun plan_loop ::
  "path \<Rightarrow> signature_map \<Rightarrow> path list \<times> path list \<Rightarrow> exc + (path list \<times> path list)" where
  "plan_loop output_directory [] acc = Inr acc"
| "plan_loop output_directory ((signature, image_files) # rest) (files_to_move, duplicate_files) =
     (case image_files of
        [] \<Rightarrow> Inl IndexError
      | to_move # others \<Rightarrow>
          if parent to_move \<noteq> output_directory
          then plan_loop output_directory rest (files_to_move @ [to_move], duplicate_files @ others)
          else plan_loop output_directory rest (files_to_move, duplicate_files))"

definition plan :: "path \<Rightarrow> signature_map \<Rightarrow> exc + (path list \<times> path list)" where
  "plan output_directory index = plan_loop output_directory index ([], [])"

section \<open>File operations\<close>

text \<open>
  \<^verbatim>\<open>p.with_stem(s)\<close> is \<^verbatim>\<open>p.with_name(s + p.suffix)\<close>; \<^verbatim>\<open>with_name\<close> raises when the
  path has no name or the new name is not a single component.
\<close>

definition with_stem :: "path \<Rightarrow> string \<Rightarrow> exc + path" where
  "with_stem p s =
     (let n = s @ suffix p
      in if name p = [] \<or> n = [] \<or> CHR ''/'' \<in> set n then Inl ValueError
         else Inr (Path (absolute p) (butlast (parts p) @ [n])))"

text \<open>The decimal digits that an f-string writes for a number.\<close>

fun string_of_nat :: "nat \<Rightarrow> string" where
  "string_of_nat n =
     (if n < 10 then [''0123456789'' ! n]
      else string_of_nat (n div 10) @ [''0123456789'' ! (n mod 10)])"

declare string_of_nat.simps [simp del]

text \<open>\<^verbatim>\<open>random.randint(lo, hi)\<close> is some number from \<open>lo\<close> to \<open>hi\<close>, both included.\<close>

definition randint :: "nat \<Rightarrow> nat \<Rightarrow> nat \<Rightarrow> nat" where
  "randint lo hi r = lo + r mod (hi - lo + 1)"

definition under :: "path \<Rightarrow> path \<Rightarrow> bool" where
  "under d p = (absolute p = absolute d \<and> take (length (parts d)) (parts p) = parts d)"

definition rebase :: "path \<Rightarrow> path \<Rightarrow> path \<Rightarrow> path" where
  "rebase src tgt p = Path (absolute tgt) (parts tgt @ drop (length (parts src)) (parts p))"

text \<open>
  \<^verbatim>\<open>os.rename\<close> on one device: a file replaces a file at the target, a directory goes
  with everything under it and only onto nothing or an empty directory. Each operation
  returns what it raised or returned, and the file system it leaves.
\<close>

definition os_rename :: "fs \<Rightarrow> path \<Rightarrow> path \<Rightarrow> (exc + path) \<times> fs" where
  "os_rename fs src tgt =
     (case lookup fs src of
        None \<Rightarrow> (Inl FileNotFoundError, fs)
      | Some (File c) \<Rightarrow>
          if \<not> is_dir fs (parent tgt) then (Inl FileNotFoundError, fs)
          else if is_dir fs tgt then (Inl IsADirectoryError, fs)
          else if tgt = src then (Inr tgt, fs)
          else (Inr tgt, filter (\<lambda>(p, e). p \<noteq> src \<and> p \<noteq> tgt) fs @ [(tgt, File c)])
      | Some Dir \<Rightarrow>
          if \<not> is_dir fs (parent tgt) then (Inl FileNotFoundError, fs)
          else if is_file fs tgt then (Inl NotADirectoryError, fs)
          else if tgt = src then (Inr tgt, fs)
          else if parts src = [] \<or> parts tgt = [] \<or> under src tgt then (Inl OSError, fs)
          else if list_ex (\<lambda>p. under tgt p \<and> p \<noteq> tgt) (map fst fs) then (Inl OSError, fs)
          else (Inr tgt,
                map (\<lambda>(p, e). if under src p then (rebase src tgt p, e) else (p, e))
                  (filter (\<lambda>(p, e). p \<noteq> tgt) fs)))"

text \<open>
  \<^verbatim>\<open>shutil.move(src, dst)\<close>: into \<open>dst\<close> when it is a directory, refusing a name that is
  taken there; onto \<open>dst\<close> otherwise. The program moves regular files only, the paths
  that were given a signature. For a source that is a directory the model follows the
  rename alone, without the copy that \<^verbatim>\<open>shutil.move\<close> falls back on.
\<close>

definition shutil_move :: "fs \<Rightarrow> path \<Rightarrow> path \<Rightarrow> (exc + path) \<times> fs" where
  "shutil_move fs src dst =
     (if is_dir fs dst
      then (let real_dst = joinpath dst (name src)
            in if exists fs real_dst then (Inl ShutilError, fs) else os_rename fs src real_dst)
      else os_rename fs src dst)"

definition os_remove :: "fs \<Rightarrow> path \<Rightarrow> (exc + unit) \<times> fs" where
  "os_remove fs p =
     (case lookup fs p of
        None \<Rightarrow> (Inl FileNotFoundError, fs)
      | Some Dir \<Rightarrow> (Inl IsADirectoryError, fs)
      | Some (File c) \<Rightarrow> (Inr (), filter (\<lambda>(q, e). q \<noteq> p) fs))"

text \<open>
  \<^verbatim>\<open>shutil.rmtree\<close> removes a directory and all that is under it. On the root or the
  current directory it empties the directory and then fails to remove it.
\<close>

definition rmtree :: "fs \<Rightarrow> path \<Rightarrow> (exc + unit) \<times> fs" where
  "rmtree fs d =
     (case lookup fs d of
        None \<Rightarrow> (Inl FileNotFoundError, fs)
      | Some (File c) \<Rightarrow> (Inl NotADirectoryError, fs)
      | Some Dir \<Rightarrow>
          (if parts d = [] then Inl OSError else Inr (), filter (\<lambda>(p, e). \<not> under d p) fs))"

text \<open>
  \<^verbatim>\<open>p.mkdir(parents=True)\<close>: the missing ancestors are created from the outermost inwards,
  then the directory itself; an ancestor that is a file stops it, and so does a path
  that exists already.
\<close>

fun mkdir_chain :: "fs \<Rightarrow> path list \<Rightarrow> (exc + unit) \<times> fs" where
  "mkdir_chain fs [] = (Inr (), fs)"
| "mkdir_chain fs (a # as) =
     (case lookup fs a of
        None \<Rightarrow> mkdir_chain (fs @ [(a, Dir)]) as
      | Some Dir \<Rightarrow> mkdir_chain fs as
      | Some (File c) \<Rightarrow> (Inl NotADirectoryError, fs))"

definition mkdir_parents :: "fs \<Rightarrow> path \<Rightarrow> (exc + unit) \<times> fs" where
  "mkdir_parents fs p =
     (if exists fs p then (Inl FileExistsError, fs)
      else mkdir_chain fs
             (map (\<lambda>n. Path (absolute p) (take n (parts p))) [1 ..< Suc (length (parts p))]))"

section \<open>Moving and removing files\<close>

definition move_file_to_dir :: "env \<Rightarrow> fs \<Rightarrow> path \<Rightarrow> path \<Rightarrow> bool \<Rightarrow> (exc + path) \<times> fs" where
  "move_file_to_dir E fs src_file dst_dir replace =
     (let dst_file = joinpath dst_dir (name src_file)
      in if is_file fs dst_file \<and> \<not> replace
         then (let new_name = stem src_file @ string_of_nat (randint 0 10 (draw E src_file))
               in case with_stem src_file new_name of
                    Inl e \<Rightarrow> (Inl e, fs)
                  | Inr renamed \<Rightarrow>
                      (case os_rename fs src_file renamed of
                         (Inl e, fs') \<Rightarrow> (Inl e, fs')
                       | (Inr src_file', fs') \<Rightarrow> shutil_move fs' src_file' dst_dir))
         else shutil_move fs src_file dst_dir)"

text \<open>
  \<^verbatim>\<open>move_files\<close> and \<^verbatim>\<open>remove_files\<close> hand every file to a pool of threads and log what
  a task raises. The tasks are taken here one after the other, in the order of the list:
  what two tasks that run at the same time do to each other is not part of the model.
\<close>

fun move_files :: "env \<Rightarrow> fs \<Rightarrow> path list \<Rightarrow> path \<Rightarrow> fs" where
  "move_files E fs [] dst_dir = fs"
| "move_files E fs (src_file # file_list) dst_dir =
     move_files E (snd (move_file_to_dir E fs src_file dst_dir False)) file_list dst_dir"

fun remove_files :: "fs \<Rightarrow> path list \<Rightarrow> fs" where
  "remove_files fs [] = fs"
| "remove_files fs (src_file # file_list) = remove_files (snd (os_remove fs src_file)) file_list"

section \<open>The program\<close>

datatype outcome = Returned int | Raised exc

fun remove_directories :: "fs \<Rightarrow> path list \<Rightarrow> (exc + unit) \<times> fs" where
  "remove_directories fs [] = (Inr (), fs)"
| "remove_directories fs (directory # ds) =
     (case rmtree fs directory of
        (Inl e, fs') \<Rightarrow> (Inl e, fs')
      | (Inr u, fs') \<Rightarrow> remove_directories fs' ds)"

text \<open>
  \<^verbatim>\<open>main\<close> after the arguments are parsed: the check of the directories, the output
  directory, the scan and the merge, the plan, the moves, the removals and the cleanup.
  The pool of the scan is made with \<^verbatim>\<open>max_workers\<close> set to the \<^verbatim>\<open>-j\<close> argument, and
  \<^verbatim>\<open>ThreadPoolExecutor\<close> raises \<^verbatim>\<open>ValueError\<close> for a number that is not positive: that
  is after the output directory was made, and before anything is scanned.
\<close>

definition run :: "env \<Rightarrow> namespace \<Rightarrow> fs \<Rightarrow> outcome \<times> fs" where
  "run E ns fs =
     (if \<not> list_all (is_dir fs) (main_directory ns # directories ns) then (Returned (- 2), fs)
      else
        let output_directory = resolved_output ns
        in case (if \<not> exists fs output_directory then mkdir_parents fs output_directory
                 else (Inr (), fs)) of
             (Inl e, fs1) \<Rightarrow> (Raised e, fs1)
           | (Inr u, fs1) \<Rightarrow>
               if jobs ns \<le> 0 then (Raised ValueError, fs1)
               else
                 (case plan output_directory (images_id E fs1 (dir_list ns)) of
                    Inl e \<Rightarrow> (Raised e, fs1)
                  | Inr (files_to_move, duplicate_files) \<Rightarrow>
                      (case remove_directories
                              (remove_files (move_files E fs1 files_to_move output_directory)
                                 duplicate_files)
                              (tl (dir_list ns)) of
                         (Inl e, fs4) \<Rightarrow> (Raised e, fs4)
                       | (Inr u, fs4) \<Rightarrow> (Returned 0, fs4))))"

definition main :: "env \<Rightarrow> int \<Rightarrow> string list option \<Rightarrow> fs \<Rightarrow> outcome \<times> fs" where
  "main E argc argv fs =
     (if argc < 3 then (Returned (- 1), fs)
      else case argv of
             None \<Rightarrow> (Raised TypeError, fs)
           | Some words \<Rightarrow>
               (case parse_args E (drop 1 words) of
                  Inl e \<Rightarrow> (Raised e, fs)
                | Inr ns \<Rightarrow> run E ns fs))"

section \<open>A worked scenario\<close>

text \<open>
  Two directories \<open>x\<close> and \<open>y\<close>: \<open>x\<close> holds a cat and a dog, \<open>y\<close> holds the same cat
  and a file that is not an image. The hash of a content is the content itself, content
  \<open>0\<close> does not decode, and tasks complete in the reverse of the order of submission.
  The parser of the scenario knows command lines of plain directory names only, two or
  more: the first is the main directory, the others are the directories; it refuses any
  other command line, as the program's parser refuses one that names a single directory.
\<close>

definition plain_word :: "string \<Rightarrow> bool" where
  "plain_word w = (w \<noteq> [] \<and> w \<noteq> ''.'' \<and> hd w \<noteq> CHR ''-'' \<and> CHR ''/'' \<notin> set w)"

definition parse_plain :: "string list \<Rightarrow> exc + namespace" where
  "parse_plain ws =
     (if 2 \<le> length ws \<and> list_all plain_word ws
      then Inr \<lparr>main_directory = Path False [hd ws],
                directories = map (\<lambda>w. Path False [w]) (tl ws),
                output_arg = None, jobs = 8, verbosity = 0\<rparr>
      else Inl (SystemExit 2))"

definition scenario_env :: env where
  "scenario_env =
     \<lparr>phash = (\<lambda>c. if c = 0 then Inl UnidentifiedImageError else Inr (int c)),
      as_completed = rev,
      draw = (\<lambda>p. 3),
      parse_args = parse_plain\<rparr>"

definition scenario_fs :: fs where
  "scenario_fs =
     [(Path False [''x''], Dir),
      (Path False [''y''], Dir),
      (Path False [''x'', ''cat.jpg''], File 1),
      (Path False [''x'', ''dog.jpg''], File 2),
      (Path False [''y'', ''cat.jpg''], File 1),
      (Path False [''y'', ''notes.txt''], File 0)]"

text \<open>
  A second state of the two directories, made for failures: \<open>y\<close> holds a dog whose name
  and whose renamed name \<open>dog3.jpg\<close> are both taken in \<open>x\<close>, a cat in two copies of
  which one has the name that the other gets when it is renamed, and a file that is not an
  image.
\<close>

definition failing_fs :: fs where
  "failing_fs =
     [(Path False [''x''], Dir),
      (Path False [''y''], Dir),
      (Path False [''x'', ''cat.jpg''], File 1),
      (Path False [''x'', ''dog.jpg''], File 2),
      (Path False [''x'', ''dog3.jpg''], File 7),
      (Path False [''y'', ''cat3.jpg''], File 5),
      (Path False [''y'', ''cat.jpg''], File 5),
      (Path False [''y'', ''dog.jpg''], File 6),
      (Path False [''y'', ''notes.txt''], File 0)]"

definition scenario_args :: "path option \<Rightarrow> namespace" where
  "scenario_args out =
     \<lparr>main_directory = Path False [''x''], directories = [Path False [''y'']],
      output_arg = out, jobs = 8, verbosity = 0\<rparr>"

section \<open>The planning loop\<close>

lemma plan_loop_acc:
  "plan_loop out idx (m, d) =
     (case plan_loop out idx ([], []) of Inl e \<Rightarrow> Inl e | Inr (m', d') \<Rightarrow> Inr (m @ m', d @ d'))"
proof (induction idx arbitrary: m d)
  case Nil
  show ?case by simp
next
  case (Cons g idx)
  obtain s files where g: "g = (s, files)" by (cases g)
  show ?case
  proof (cases files)
    case Nil
    with g show ?thesis by simp
  next
    case (Cons r0 others)
    show ?thesis
    proof (cases "parent r0 = out")
      case True
      with g Cons Cons.IH [of m d] show ?thesis by simp
    next
      case False
      have a: "plan_loop out (g # idx) (m, d) = plan_loop out idx (m @ [r0], d @ others)"
        using g Cons False by simp
      have b: "plan_loop out (g # idx) ([], []) = plan_loop out idx ([r0], others)"
        using g Cons False by simp
      have c: "plan_loop out idx (m @ [r0], d @ others) =
          (case plan_loop out idx ([], []) of Inl e \<Rightarrow> Inl e
           | Inr (m', d') \<Rightarrow> Inr ((m @ [r0]) @ m', (d @ others) @ d'))"
        by (rule Cons.IH)
      have e: "plan_loop out idx ([r0], others) =
          (case plan_loop out idx ([], []) of Inl e \<Rightarrow> Inl e
           | Inr (m', d') \<Rightarrow> Inr ([r0] @ m', others @ d'))"
        by (rule Cons.IH)
      show ?thesis
        unfolding a b c e by (simp split: sum.splits)
    qed
  qed
qed

lemma plan_loop_append:
  "plan_loop out (xs @ ys) acc =
     (case plan_loop out xs acc of Inl e \<Rightarrow> Inl e | Inr acc' \<Rightarrow> plan_loop out ys acc')"
proof (induction xs arbitrary: acc)
  case Nil
  show ?case by simp
next
  case (Cons g xs)
  obtain s files where g: "g = (s, files)" by (cases g)
  obtain m d where acc: "acc = (m, d)" by (cases acc)
  show ?case using g acc Cons.IH by (simp split: list.splits)
qed

lemma plan_members:
  "plan_loop out idx (m, d) = Inr (m', d') \<Longrightarrow>
     set m' \<union> set d' \<subseteq> set m \<union> set d \<union> (\<Union>g \<in> set idx. set (snd g))"
proof (induction idx arbitrary: m d)
  case Nil
  then show ?case by auto
next
  case (Cons g idx)
  obtain s files where g: "g = (s, files)" by (cases g)
  show ?case
  proof (cases files)
    case Nil
    with g Cons.prems show ?thesis by simp
  next
    case (Cons r0 others)
    show ?thesis
    proof (cases "parent r0 = out")
      case True
      with g Cons Cons.prems have "plan_loop out idx (m, d) = Inr (m', d')" by simp
      from Cons.IH [OF this] show ?thesis by auto
    next
      case False
      with g Cons Cons.prems have "plan_loop out idx (m @ [r0], d @ others) = Inr (m', d')" by simp
      from Cons.IH [OF this] show ?thesis using g Cons by auto
    qed
  qed
qed

section \<open>The signature index\<close>

lemma keys_dict_extend: "fst ` set (dict_extend k vs d) = insert k (fst ` set d)"
proof (induction d)
  case Nil
  show ?case by simp
next
  case (Cons g d)
  obtain k' ws where g: "g = (k', ws)" by (cases g)
  show ?case
  proof (cases "k = k'")
    case True
    with g show ?thesis by simp
  next
    case False
    with g Cons show ?thesis by (simp add: insert_commute)
  qed
qed

lemma distinct_dict_extend:
  "distinct (map fst d) \<Longrightarrow> distinct (map fst (dict_extend k vs d))"
proof (induction d)
  case Nil
  show ?case by simp
next
  case (Cons g d)
  obtain k' ws where g: "g = (k', ws)" by (cases g)
  have "k' \<notin> fst ` set (dict_extend k vs d)" if "k \<noteq> k'"
    using Cons.prems g that by (simp add: keys_dict_extend)
  with Cons g show ?case by auto
qed

lemma group_of_dict_extend:
  "group_of (dict_extend k vs d) s = (if s = k then group_of d s @ vs else group_of d s)"
  by (induction d) (auto simp: group_of_def)

lemma nonempty_dict_extend:
  "vs \<noteq> [] \<Longrightarrow> \<forall>g \<in> set d. snd g \<noteq> [] \<Longrightarrow> \<forall>g \<in> set (dict_extend k vs d). snd g \<noteq> []"
proof (induction d)
  case Nil
  then show ?case by simp
next
  case (Cons g d)
  obtain k' ws where g: "g = (k', ws)" by (cases g)
  from Cons.prems g have ws: "ws \<noteq> []" and d: "\<forall>g \<in> set d. snd g \<noteq> []" by auto
  from Cons.IH [OF Cons.prems(1) d] ws d Cons.prems(1) g show ?case by simp
qed

lemma distinct_collect:
  "distinct (map fst d) \<Longrightarrow> distinct (map fst (collect rs d))"
  by (induction rs d rule: collect.induct) (simp_all add: distinct_dict_extend)

lemma nonempty_collect:
  "\<forall>g \<in> set d. snd g \<noteq> [] \<Longrightarrow> \<forall>g \<in> set (collect rs d). snd g \<noteq> []"
proof (induction rs d rule: collect.induct)
  case (3 img signature futures images_signatures)
  have "\<forall>g \<in> set (dict_extend signature [img] images_signatures). snd g \<noteq> []"
    by (rule nonempty_dict_extend) (use 3 in auto)
  with 3 show ?case by simp
qed simp_all

lemma set_group_collect:
  "set (group_of (collect rs d) k) = set (group_of d k) \<union> {p. Inr (p, k) \<in> set rs}"
  by (induction rs d rule: collect.induct) (auto simp: group_of_dict_extend)

lemma group_of_empty [simp]: "group_of [] k = []"
  by (simp add: group_of_def)

lemma sign_image_Inr:
  "sign_image E fs q = Inr (p, k) \<longleftrightarrow> q = p \<and> get_image_signature E fs p = Inr k"
  by (auto simp: sign_image_def split: sum.splits)

lemma set_group_process:
  "set (group_of (process_directory_images E fs d) k) =
     {p \<in> set (as_completed E (glob fs d)). get_image_signature E fs p = Inr k}"
proof -
  have "Inr (p, k) \<in> set (map (sign_image E fs) xs) \<longleftrightarrow>
          p \<in> set xs \<and> get_image_signature E fs p = Inr k" for p xs
  proof
    assume "Inr (p, k) \<in> set (map (sign_image E fs) xs)"
    then obtain q where "q \<in> set xs" "sign_image E fs q = Inr (p, k)" by auto
    then show "p \<in> set xs \<and> get_image_signature E fs p = Inr k"
      by (simp add: sign_image_Inr)
  next
    assume "p \<in> set xs \<and> get_image_signature E fs p = Inr k"
    then have "p \<in> set xs" "sign_image E fs p = Inr (p, k)"
      by (simp_all add: sign_image_Inr)
    then show "Inr (p, k) \<in> set (map (sign_image E fs) xs)"
      by (metis image_eqI set_map)
  qed
  then show ?thesis
    by (simp add: process_directory_images_def set_group_collect)
qed

lemma distinct_process: "distinct (map fst (process_directory_images E fs d))"
  by (simp add: process_directory_images_def distinct_collect)

lemma nonempty_process: "\<forall>g \<in> set (process_directory_images E fs d). snd g \<noteq> []"
  unfolding process_directory_images_def by (rule nonempty_collect) simp

lemma distinct_extend_all:
  "distinct (map fst idx) \<Longrightarrow> distinct (map fst (extend_all idx m))"
  by (induction idx m rule: extend_all.induct) (simp_all add: distinct_dict_extend)

lemma nonempty_extend_all:
  "\<forall>g \<in> set m. snd g \<noteq> [] \<Longrightarrow> \<forall>g \<in> set idx. snd g \<noteq> [] \<Longrightarrow>
     \<forall>g \<in> set (extend_all idx m). snd g \<noteq> []"
proof (induction idx m rule: extend_all.induct)
  case (2 idx signature image_files signature_map)
  have "\<forall>g \<in> set (dict_extend signature image_files idx). snd g \<noteq> []"
    by (rule nonempty_dict_extend) (use 2 in auto)
  with 2 show ?case by simp
qed simp_all

lemma group_of_extend_all:
  "distinct (map fst m) \<Longrightarrow> group_of (extend_all idx m) s = group_of idx s @ group_of m s"
proof (induction idx m rule: extend_all.induct)
  case (1 idx)
  show ?case by simp
next
  case (2 idx signature image_files signature_map)
  have "group_of signature_map signature = []"
    using 2(2) by (auto simp: group_of_def map_of_eq_None_iff[THEN iffD2] split: option.splits dest: map_of_SomeD)
  moreover have "group_of ((signature, image_files) # signature_map) s =
      (if s = signature then image_files else group_of signature_map s)"
    by (simp add: group_of_def)
  ultimately show ?case using 2 by (simp add: group_of_dict_extend)
qed

lemma distinct_merge_results:
  "distinct (map fst idx) \<Longrightarrow> distinct (map fst (merge_results ms idx))"
  by (induction ms idx rule: merge_results.induct) (simp_all add: distinct_extend_all)

lemma nonempty_merge_results:
  "\<forall>m \<in> set ms. \<forall>g \<in> set m. snd g \<noteq> [] \<Longrightarrow> \<forall>g \<in> set idx. snd g \<noteq> [] \<Longrightarrow>
     \<forall>g \<in> set (merge_results ms idx). snd g \<noteq> []"
proof (induction ms idx rule: merge_results.induct)
  case (2 signature_map results idx)
  have "\<forall>g \<in> set (extend_all idx signature_map). snd g \<noteq> []"
    by (rule nonempty_extend_all) (use 2 in auto)
  with 2 show ?case by simp
qed simp_all

lemma group_of_merge_results:
  "\<forall>m \<in> set ms. distinct (map fst m) \<Longrightarrow>
     group_of (merge_results ms idx) s = group_of idx s @ concat (map (\<lambda>m. group_of m s) ms)"
  by (induction ms idx rule: merge_results.induct) (simp_all add: group_of_extend_all)

lemma distinct_images_id: "distinct (map fst (images_id E fs dirs))"
  by (simp add: images_id_def distinct_merge_results)

lemma nonempty_images_id: "\<forall>g \<in> set (images_id E fs dirs). snd g \<noteq> []"
  unfolding images_id_def by (rule nonempty_merge_results) (auto simp: nonempty_process)

lemma group_of_images_id:
  "group_of (images_id E fs dirs) s =
     concat (map (\<lambda>d. group_of (process_directory_images E fs d) s) dirs)"
  by (simp add: images_id_def group_of_merge_results distinct_process comp_def)

lemma set_group_images_id:
  "set (group_of (images_id E fs dirs) k) =
     {p. \<exists>d \<in> set dirs. p \<in> set (as_completed E (glob fs d)) \<and> get_image_signature E fs p = Inr k}"
  by (auto simp: group_of_images_id set_group_process)

section \<open>The planner (C1, C7, C10)\<close>

text \<open>
  C1, as the specification has it: every group of more than one record has its records
  after the first scheduled for deletion, also when the first record is in the output
  directory. The program does not do that. In the scenario with \<open>x\<close> as the output
  directory the two cats form one group, led by the one in \<open>x\<close>, and nothing at all is
  scheduled: the second cat is on no deletion list.
\<close>

theorem plan_first_in_output_counterexample:
  "group_of (images_id scenario_env scenario_fs [Path False [''x''], Path False [''y'']]) 1 =
     [Path False [''x'', ''cat.jpg''], Path False [''y'', ''cat.jpg'']] \<and>
   plan (Path False [''x''])
     (images_id scenario_env scenario_fs [Path False [''x''], Path False [''y'']]) = Inr ([], [])"
  by code_simp

text \<open>
  C1, amended: a group \<open>r0, r1, \<dots>, rn\<close> whose first record \<open>r0\<close> is not in the output
  directory adds exactly \<open>r0\<close> to the moves and exactly \<open>r1, \<dots>, rn\<close> to the deletions,
  whatever the directories of \<open>r1, \<dots>, rn\<close> are: one record kept and \<open>n\<close> deleted.
\<close>

theorem plan_schedules_group:
  assumes "parent r0 \<noteq> out"
    and "plan out idx1 = Inr (m1, d1)"
    and "plan out idx2 = Inr (m2, d2)"
  shows "plan out (idx1 @ (s, r0 # rest) # idx2) = Inr (m1 @ r0 # m2, d1 @ rest @ d2)"
proof -
  have "plan_loop out idx2 (m1 @ [r0], d1 @ rest) = Inr ((m1 @ [r0]) @ m2, (d1 @ rest) @ d2)"
    using assms(3) by (subst plan_loop_acc) (simp add: plan_def)
  then show ?thesis
    using assms(1,2) by (simp add: plan_def plan_loop_append)
qed

theorem plan_schedules_group_witness:
  "parent (Path False [''y'', ''a.jpg'']) \<noteq> Path False [''x''] \<and>
   plan (Path False [''x'']) [] = Inr ([], []) \<and>
   plan (Path False [''x'']) [(2, [Path False [''y'', ''c.jpg'']])] =
     Inr ([Path False [''y'', ''c.jpg'']], []) \<and>
   plan (Path False [''x''])
     ([] @ (1, Path False [''y'', ''a.jpg''] # [Path False [''x'', ''b.jpg'']]) #
        [(2, [Path False [''y'', ''c.jpg'']])]) =
     Inr ([] @ Path False [''y'', ''a.jpg''] # [Path False [''y'', ''c.jpg'']],
          [] @ [Path False [''x'', ''b.jpg'']] @ [])"
proof -
  have h1: "parent (Path False [''y'', ''a.jpg'']) \<noteq> Path False [''x'']"
    by (simp add: parent_def)
  have h2: "plan (Path False [''x'']) [] = Inr ([], [])"
    by (simp add: plan_def)
  have h3: "plan (Path False [''x'']) [(2, [Path False [''y'', ''c.jpg'']])] =
      Inr ([Path False [''y'', ''c.jpg'']], [])"
    by (simp add: plan_def parent_def)
  show ?thesis
    using h1 h2 h3 plan_schedules_group [OF h1 h2 h3, of 1 "[Path False [''x'', ''b.jpg'']]"]
    by simp
qed

text \<open>
  C7: on an index whose records all lie in the output directory (every group being
  non-empty, as the groups of a merged index are), the planning loop returns no move and no
  deletion.
\<close>

theorem plan_idempotent:
  assumes "\<forall>(s, files) \<in> set idx. files \<noteq> [] \<and> (\<forall>p \<in> set files. parent p = out)"
  shows "plan out idx = Inr ([], [])"
  unfolding plan_def using assms
proof (induction idx)
  case Nil
  show ?case by simp
next
  case (Cons g idx)
  obtain s files where g: "g = (s, files)" by (cases g)
  with Cons.prems obtain r0 others where f: "files = r0 # others" by (cases files) auto
  with g Cons.prems have "parent r0 = out" by simp
  with g f Cons show ?case by simp
qed

theorem plan_idempotent_witness:
  "list_all (\<lambda>(s, files). files \<noteq> [] \<and> list_all (\<lambda>p. parent p = Path False [''x'']) files)
     [(1::int, [Path False [''x'', ''a.jpg''], Path False [''x'', ''b.jpg'']]),
      (2, [Path False [''x'', ''c.jpg'']])] \<and>
   plan (Path False [''x''])
     [(1, [Path False [''x'', ''a.jpg''], Path False [''x'', ''b.jpg'']]),
      (2, [Path False [''x'', ''c.jpg'']])] = Inr ([], [])"
proof -
  have h: "\<forall>(s, files) \<in> set [(1::int, [Path False [''x'', ''a.jpg''], Path False [''x'', ''b.jpg'']]),
                               (2, [Path False [''x'', ''c.jpg'']])].
      files \<noteq> [] \<and> (\<forall>p \<in> set files. parent p = Path False [''x''])"
    by (simp add: parent_def)
  show ?thesis using h plan_idempotent [OF h] by (simp add: parent_def)
qed

text \<open>
  C10: a group whose first record is in the output directory is passed over whole. The plan
  is the one of the index without that group; and when no record of the group is in another
  group, none of its records is among the moves or the deletions.
\<close>

theorem plan_skips_group_in_output:
  assumes "parent r0 = out"
  shows "plan out (idx1 @ (s, r0 # rest) # idx2) = plan out (idx1 @ idx2) \<and>
         (plan out (idx1 @ (s, r0 # rest) # idx2) = Inr (mv, del) \<and>
          (\<forall>g \<in> set (idx1 @ idx2). set (snd g) \<inter> set (r0 # rest) = {}) \<longrightarrow>
            set (r0 # rest) \<inter> (set mv \<union> set del) = {})"
proof -
  have eq: "plan out (idx1 @ (s, r0 # rest) # idx2) = plan out (idx1 @ idx2)"
    using assms by (simp add: plan_def plan_loop_append split: sum.splits prod.splits)
  have "set (r0 # rest) \<inter> (set mv \<union> set del) = {}"
    if p: "plan out (idx1 @ (s, r0 # rest) # idx2) = Inr (mv, del)"
      and d: "\<forall>g \<in> set (idx1 @ idx2). set (snd g) \<inter> set (r0 # rest) = {}"
  proof -
    from p eq have "plan_loop out (idx1 @ idx2) ([], []) = Inr (mv, del)"
      by (simp add: plan_def)
    from plan_members [OF this]
    have "set mv \<union> set del \<subseteq> (\<Union>g \<in> set (idx1 @ idx2). set (snd g))" by simp
    with d show ?thesis by blast
  qed
  with eq show ?thesis by blast
qed

theorem plan_skips_group_in_output_witness:
  "parent (Path False [''x'', ''a.jpg'']) = Path False [''x''] \<and>
   plan (Path False [''x''])
     ([] @ (1, Path False [''x'', ''a.jpg''] # [Path False [''y'', ''b.jpg'']]) #
        [(2, [Path False [''y'', ''c.jpg'']])]) =
     Inr ([Path False [''y'', ''c.jpg'']], []) \<and>
   set (Path False [''x'', ''a.jpg''] # [Path False [''y'', ''b.jpg'']]) \<inter>
     (set [Path False [''y'', ''c.jpg'']] \<union> set []) = {}"
proof -
  have h: "parent (Path False [''x'', ''a.jpg'']) = Path False [''x'']"
    by (simp add: parent_def)
  have p: "plan (Path False [''x''])
     ([] @ (1, Path False [''x'', ''a.jpg''] # [Path False [''y'', ''b.jpg'']]) #
        [(2, [Path False [''y'', ''c.jpg'']])]) =
     Inr ([Path False [''y'', ''c.jpg'']], [])"
    by (simp add: plan_def parent_def)
  show ?thesis
    using h p plan_skips_group_in_output [OF h, of "[]" 1 "[Path False [''y'', ''b.jpg'']]"
        "[(2, [Path False [''y'', ''c.jpg'']])]" "[Path False [''y'', ''c.jpg'']]" "[]"]
    by simp
qed

section \<open>Directory order and merge (C3)\<close>

text \<open>
  C3: the directories are processed in the order output directory (when it is not among
  the directories given), main directory, the other directories as given; and the list of
  every signature in the merged index is the lists of that signature in the directories'
  own maps, joined in that order.
\<close>

theorem merge_follows_directory_order:
  "dir_list ns =
     (if resolved_output ns \<in> set (main_directory ns # directories ns)
      then main_directory ns # directories ns
      else resolved_output ns # main_directory ns # directories ns) \<and>
   group_of (images_id E fs (dir_list ns)) s =
     concat (map (\<lambda>d. group_of (process_directory_images E fs d) s) (dir_list ns))"
  by (simp add: group_of_images_id dir_list_def Let_def)

theorem merge_follows_directory_order_witness:
  "dir_list (scenario_args (Some (Path False [''z'']))) =
     [Path False [''z''], Path False [''x''], Path False [''y'']] \<and>
   group_of (images_id scenario_env scenario_fs
       (dir_list (scenario_args (Some (Path False [''z'']))))) 1 =
     [Path False [''x'', ''cat.jpg''], Path False [''y'', ''cat.jpg'']]"
proof -
  have a: "dir_list (scenario_args (Some (Path False [''z'']))) =
      [Path False [''z''], Path False [''x''], Path False [''y'']]"
    by code_simp
  have b: "concat (map (\<lambda>d. group_of (process_directory_images scenario_env scenario_fs d) 1)
        [Path False [''z''], Path False [''x''], Path False [''y'']]) =
      [Path False [''x'', ''cat.jpg''], Path False [''y'', ''cat.jpg'']]"
    by code_simp
  have c: "group_of (images_id scenario_env scenario_fs
        (dir_list (scenario_args (Some (Path False [''z'']))))) 1 =
      concat (map (\<lambda>d. group_of (process_directory_images scenario_env scenario_fs d) 1)
        (dir_list (scenario_args (Some (Path False [''z''])))))"
    using merge_follows_directory_order
      [of "scenario_args (Some (Path False [''z'']))" scenario_env scenario_fs 1]
    by (rule conjunct2)
  have d: "group_of (images_id scenario_env scenario_fs
        (dir_list (scenario_args (Some (Path False [''z'']))))) 1 =
      [Path False [''x'', ''cat.jpg''], Path False [''y'', ''cat.jpg'']]"
    using c unfolding a b .
  show ?thesis using a d by (rule conjI)
qed

section \<open>Grouping (C4)\<close>

text \<open>
  C4: the hash being a function of the content, and every submitted task being handed back,
  two scanned files with a signature are in one group exactly when their signatures are
  equal, and a scanned file with a signature is in the group of that signature and in no
  other; the groups are keyed by distinct signatures.
\<close>

theorem grouping_by_signature:
  assumes perm: "\<forall>xs. set (as_completed E xs) = set xs"
    and p: "d \<in> set dirs" "p \<in> set (glob fs d)" "get_image_signature E fs p = Inr sp"
    and q: "d' \<in> set dirs" "q \<in> set (glob fs d')" "get_image_signature E fs q = Inr sq"
  shows "((\<exists>k. p \<in> set (group_of (images_id E fs dirs) k) \<and>
               q \<in> set (group_of (images_id E fs dirs) k)) \<longleftrightarrow> sp = sq) \<and>
         (\<forall>k. p \<in> set (group_of (images_id E fs dirs) k) \<longleftrightarrow> k = sp) \<and>
         distinct (map fst (images_id E fs dirs))"
  using assms by (auto simp: set_group_images_id distinct_images_id)

theorem grouping_by_signature_witness:
  "(\<forall>xs. set (as_completed scenario_env xs) = set xs) \<and>
   Path False [''x'', ''cat.jpg''] \<in> set (glob scenario_fs (Path False [''x''])) \<and>
   get_image_signature scenario_env scenario_fs (Path False [''x'', ''cat.jpg'']) = Inr 1 \<and>
   Path False [''y'', ''cat.jpg''] \<in> set (glob scenario_fs (Path False [''y''])) \<and>
   get_image_signature scenario_env scenario_fs (Path False [''y'', ''cat.jpg'']) = Inr 1 \<and>
   (\<exists>k. Path False [''x'', ''cat.jpg''] \<in>
          set (group_of (images_id scenario_env scenario_fs
                 [Path False [''x''], Path False [''y'']]) k) \<and>
        Path False [''y'', ''cat.jpg''] \<in>
          set (group_of (images_id scenario_env scenario_fs
                 [Path False [''x''], Path False [''y'']]) k))"
proof -
  have h0: "\<forall>xs. set (as_completed scenario_env xs) = set xs"
    by (simp add: scenario_env_def)
  have h1: "Path False [''x''] \<in> set [Path False [''x''], Path False [''y'']]" by simp
  have h2: "Path False [''x'', ''cat.jpg''] \<in> set (glob scenario_fs (Path False [''x'']))"
    by code_simp
  have h3: "get_image_signature scenario_env scenario_fs (Path False [''x'', ''cat.jpg'']) = Inr 1"
    by code_simp
  have h4: "Path False [''y''] \<in> set [Path False [''x''], Path False [''y'']]" by simp
  have h5: "Path False [''y'', ''cat.jpg''] \<in> set (glob scenario_fs (Path False [''y'']))"
    by code_simp
  have h6: "get_image_signature scenario_env scenario_fs (Path False [''y'', ''cat.jpg'']) = Inr 1"
    by code_simp
  have g: "\<exists>k. Path False [''x'', ''cat.jpg''] \<in>
          set (group_of (images_id scenario_env scenario_fs
                 [Path False [''x''], Path False [''y'']]) k) \<and>
        Path False [''y'', ''cat.jpg''] \<in>
          set (group_of (images_id scenario_env scenario_fs
                 [Path False [''x''], Path False [''y'']]) k)"
    using grouping_by_signature [OF h0 h1 h2 h3 h4 h5 h6] by blast
  show ?thesis
    by (intro conjI) (rule h0 h2 h3 h5 h6 g)+
qed

section \<open>Failed items (C5)\<close>

lemma sign_image_Inl:
  "sign_image E fs p = Inl e \<longleftrightarrow> get_image_signature E fs p = Inl e"
  by (auto simp: sign_image_def split: sum.splits)

lemma collect_without_failed:
  assumes "sign_image E fs p = Inl e"
  shows "collect (map (sign_image E fs) (filter (\<lambda>q. q \<noteq> p) xs)) d =
         collect (map (sign_image E fs) xs) d"
proof (induction xs arbitrary: d)
  case Nil
  show ?case by simp
next
  case (Cons x xs)
  show ?case
  proof (cases "x = p")
    case True
    with assms Cons show ?thesis by simp
  next
    case False
    show ?thesis
    proof (cases "sign_image E fs x")
      case (Inl e')
      with False Cons show ?thesis by simp
    next
      case (Inr r)
      obtain img s where "r = (img, s)" by (cases r)
      with Inr False Cons show ?thesis by simp
    qed
  qed
qed

lemma member_group_of:
  assumes "distinct (map fst d)" "g \<in> set d"
  shows "snd g = group_of d (fst g)"
  using assms by (cases g) (simp add: group_of_def)

text \<open>
  C5: a candidate whose signature computation raises is in no group of the merged index,
  on no list of the plan, neither the moves nor the deletions, and the map of its directory
  is the one that the other candidates give without it: the loop goes on with them.
\<close>

theorem failed_item_dropped:
  assumes "get_image_signature E fs p = Inl e"
  shows "(\<forall>k. p \<notin> set (group_of (images_id E fs dirs) k)) \<and>
         (\<forall>g \<in> set (images_id E fs dirs). p \<notin> set (snd g)) \<and>
         (\<forall>mv del. plan out (images_id E fs dirs) = Inr (mv, del) \<longrightarrow>
            p \<notin> set mv \<and> p \<notin> set del) \<and>
         process_directory_images E fs d =
           collect (map (sign_image E fs) (filter (\<lambda>q. q \<noteq> p) (as_completed E (glob fs d)))) []"
proof -
  have a: "p \<notin> set (group_of (images_id E fs dirs) k)" for k
    using assms by (simp add: set_group_images_id)
  have b: "p \<notin> set (snd g)" if "g \<in> set (images_id E fs dirs)" for g
    using a member_group_of [OF distinct_images_id that] by simp
  have c: "p \<notin> set mv \<and> p \<notin> set del" if "plan out (images_id E fs dirs) = Inr (mv, del)" for mv del
  proof -
    from that have "plan_loop out (images_id E fs dirs) ([], []) = Inr (mv, del)"
      by (simp add: plan_def)
    from plan_members [OF this]
    have "set mv \<union> set del \<subseteq> (\<Union>g \<in> set (images_id E fs dirs). set (snd g))" by simp
    with b show ?thesis by blast
  qed
  have s: "sign_image E fs p = Inl e"
    using assms by (simp add: sign_image_Inl)
  have d: "process_directory_images E fs d =
      collect (map (sign_image E fs) (filter (\<lambda>q. q \<noteq> p) (as_completed E (glob fs d)))) []"
    unfolding process_directory_images_def by (rule collect_without_failed [OF s, symmetric])
  from a b c d show ?thesis by blast
qed

theorem failed_item_dropped_witness:
  "get_image_signature scenario_env scenario_fs (Path False [''y'', ''notes.txt'']) =
     Inl UnidentifiedImageError \<and>
   Path False [''y'', ''notes.txt''] \<in> set (glob scenario_fs (Path False [''y''])) \<and>
   plan (Path False [''z''])
     (images_id scenario_env scenario_fs
        [Path False [''z''], Path False [''x''], Path False [''y'']]) =
     Inr ([Path False [''x'', ''dog.jpg''], Path False [''x'', ''cat.jpg'']],
          [Path False [''y'', ''cat.jpg'']]) \<and>
   Path False [''y'', ''notes.txt''] \<notin>
     set [Path False [''x'', ''dog.jpg''], Path False [''x'', ''cat.jpg'']] \<and>
   Path False [''y'', ''notes.txt''] \<notin> set [Path False [''y'', ''cat.jpg'']] \<and>
   process_directory_images scenario_env scenario_fs (Path False [''y'']) =
     [(1, [Path False [''y'', ''cat.jpg'']])]"
proof -
  have h: "get_image_signature scenario_env scenario_fs (Path False [''y'', ''notes.txt'']) =
      Inl UnidentifiedImageError"
    by code_simp
  have g: "Path False [''y'', ''notes.txt''] \<in> set (glob scenario_fs (Path False [''y'']))"
    by code_simp
  have p: "plan (Path False [''z''])
     (images_id scenario_env scenario_fs
        [Path False [''z''], Path False [''x''], Path False [''y'']]) =
     Inr ([Path False [''x'', ''dog.jpg''], Path False [''x'', ''cat.jpg'']],
          [Path False [''y'', ''cat.jpg'']])"
    by code_simp
  have r: "collect (map (sign_image scenario_env scenario_fs)
        (filter (\<lambda>q. q \<noteq> Path False [''y'', ''notes.txt''])
           (as_completed scenario_env (glob scenario_fs (Path False [''y'']))))) [] =
      [(1, [Path False [''y'', ''cat.jpg'']])]"
    by code_simp
  note t = failed_item_dropped [OF h, of "[Path False [''z''], Path False [''x''], Path False [''y'']]"
      "Path False [''z'']" "Path False [''y'']"]
  from t p have n: "Path False [''y'', ''notes.txt''] \<notin>
        set [Path False [''x'', ''dog.jpg''], Path False [''x'', ''cat.jpg'']] \<and>
      Path False [''y'', ''notes.txt''] \<notin> set [Path False [''y'', ''cat.jpg'']]"
    by blast
  from t r have q: "process_directory_images scenario_env scenario_fs (Path False [''y'']) =
      [(1, [Path False [''y'', ''cat.jpg'']])]"
    by simp
  from h g p n q show ?thesis by blast
qed

section \<open>Exit codes and cleanup (C6, C8, C2)\<close>

lemma plan_loop_total:
  "\<forall>g \<in> set idx. snd g \<noteq> [] \<Longrightarrow> \<exists>mv del. plan_loop out idx acc = Inr (mv, del)"
proof (induction idx arbitrary: acc)
  case Nil
  show ?case by (cases acc) simp
next
  case (Cons g idx)
  obtain s files where g: "g = (s, files)" by (cases g)
  obtain m d where acc: "acc = (m, d)" by (cases acc)
  from Cons.prems g obtain r0 others where f: "files = r0 # others" by (cases files) auto
  from Cons.prems have "\<forall>g \<in> set idx. snd g \<noteq> []" by simp
  from Cons.IH [OF this] g acc f show ?case by simp
qed

lemma plan_images_id_total:
  "\<exists>mv del. plan out (images_id E fs dirs) = Inr (mv, del)"
  unfolding plan_def by (rule plan_loop_total) (rule nonempty_images_id)




text \<open>
  C8: once the arguments are accepted and the directories exist, \<^verbatim>\<open>main\<close> returns no
  code but \<open>0\<close>. And it does return: with a positive number of jobs and the output
  directory there, the plan is computed whatever the hash does, and when the cleanup
  returns, so does \<^verbatim>\<open>main\<close>, with \<open>0\<close>. No failure of a signature, a move or a removal
  changes the code: in the witness one file does not decode, one move is refused at the
  destination and one removal finds its file gone.
\<close>

theorem exit_code_zero:
  assumes "3 \<le> argc" and "argv = Some words" and "parse_args E (drop 1 words) = Inr ns"
    and "list_all (is_dir fs) (main_directory ns # directories ns)"
  shows "(\<forall>c fs'. main E argc argv fs = (Returned c, fs') \<longrightarrow> c = 0) \<and>
         (0 < jobs ns \<and>
          (if \<not> exists fs (resolved_output ns) then mkdir_parents fs (resolved_output ns)
           else (Inr (), fs)) = (Inr (), fs1) \<longrightarrow>
            (\<exists>mv del. plan (resolved_output ns) (images_id E fs1 (dir_list ns)) = Inr (mv, del) \<and>
               (\<forall>fs4. remove_directories
                        (remove_files (move_files E fs1 mv (resolved_output ns)) del)
                        (tl (dir_list ns)) = (Inr (), fs4) \<longrightarrow>
                      main E argc argv fs = (Returned 0, fs4))))"
proof -
  have m: "main E argc argv fs = run E ns fs"
    using assms(1-3) by (simp add: main_def)
  have a: "c = 0" if "main E argc argv fs = (Returned c, fs')" for c fs'
    using that assms(4) unfolding m run_def Let_def
    by (auto split: prod.splits sum.splits if_splits)
  have b: "\<exists>mv del. plan (resolved_output ns) (images_id E fs1 (dir_list ns)) = Inr (mv, del) \<and>
               (\<forall>fs4. remove_directories
                        (remove_files (move_files E fs1 mv (resolved_output ns)) del)
                        (tl (dir_list ns)) = (Inr (), fs4) \<longrightarrow>
                      main E argc argv fs = (Returned 0, fs4))"
    if j: "0 < jobs ns"
      and mk: "(if \<not> exists fs (resolved_output ns) then mkdir_parents fs (resolved_output ns)
           else (Inr (), fs)) = (Inr (), fs1)"
  proof -
    obtain mv del
      where p: "plan (resolved_output ns) (images_id E fs1 (dir_list ns)) = Inr (mv, del)"
      using plan_images_id_total by blast
    have r: "run E ns fs =
        (case remove_directories (remove_files (move_files E fs1 mv (resolved_output ns)) del)
                (tl (dir_list ns)) of
           (Inl e, fs4) \<Rightarrow> (Raised e, fs4)
         | (Inr u, fs4) \<Rightarrow> (Returned 0, fs4))"
      unfolding run_def Let_def using assms(4) j mk p by simp
    have "main E argc argv fs = (Returned 0, fs4)"
      if "remove_directories (remove_files (move_files E fs1 mv (resolved_output ns)) del)
            (tl (dir_list ns)) = (Inr (), fs4)" for fs4
      using m r that by simp
    with p show ?thesis by blast
  qed
  from a b show ?thesis by blast
qed

theorem exit_code_zero_witness:
  "parse_args scenario_env (drop 1 [''prog'', ''x'', ''y'']) = Inr (scenario_args None) \<and>
   list_all (is_dir failing_fs)
     (main_directory (scenario_args None) # directories (scenario_args None)) \<and>
   0 < jobs (scenario_args None) \<and>
   get_image_signature scenario_env failing_fs (Path False [''y'', ''notes.txt'']) =
     Inl UnidentifiedImageError \<and>
   plan (Path False [''x''])
       (images_id scenario_env failing_fs [Path False [''x''], Path False [''y'']]) =
     Inr ([Path False [''y'', ''dog.jpg''], Path False [''y'', ''cat.jpg'']],
          [Path False [''y'', ''cat3.jpg'']]) \<and>
   fst (move_file_to_dir scenario_env failing_fs (Path False [''y'', ''dog.jpg''])
          (Path False [''x'']) False) = Inl ShutilError \<and>
   fst (os_remove
          (move_files scenario_env failing_fs
             [Path False [''y'', ''dog.jpg''], Path False [''y'', ''cat.jpg'']] (Path False [''x'']))
          (Path False [''y'', ''cat3.jpg''])) = Inl FileNotFoundError \<and>
   main scenario_env 3 (Some [''prog'', ''x'', ''y'']) failing_fs =
     (Returned 0,
      [(Path False [''x''], Dir),
       (Path False [''x'', ''cat.jpg''], File 1),
       (Path False [''x'', ''dog.jpg''], File 2),
       (Path False [''x'', ''dog3.jpg''], File 7),
       (Path False [''x'', ''cat3.jpg''], File 5)])"
proof -
  let ?ns = "scenario_args None"
  let ?mv = "[Path False [''y'', ''dog.jpg''], Path False [''y'', ''cat.jpg'']]"
  let ?del = "[Path False [''y'', ''cat3.jpg'']]"
  let ?end = "[(Path False [''x''], Dir),
       (Path False [''x'', ''cat.jpg''], File 1),
       (Path False [''x'', ''dog.jpg''], File 2),
       (Path False [''x'', ''dog3.jpg''], File 7),
       (Path False [''x'', ''cat3.jpg''], File 5)]"
  have h1: "(3::int) \<le> 3" by simp
  have h3: "parse_args scenario_env (drop 1 [''prog'', ''x'', ''y'']) = Inr ?ns"
    by code_simp
  have h4: "list_all (is_dir failing_fs) (main_directory ?ns # directories ?ns)"
    by code_simp
  have j: "0 < jobs ?ns"
    by code_simp
  have mk: "(if \<not> exists failing_fs (resolved_output ?ns)
             then mkdir_parents failing_fs (resolved_output ?ns)
             else (Inr (), failing_fs)) = (Inr (), failing_fs)"
    by code_simp
  have out: "resolved_output ?ns = Path False [''x'']"
    by code_simp
  have dl: "dir_list ?ns = [Path False [''x''], Path False [''y'']]"
    by code_simp
  have f: "get_image_signature scenario_env failing_fs (Path False [''y'', ''notes.txt'']) =
     Inl UnidentifiedImageError"
    by code_simp
  have p: "plan (Path False [''x''])
       (images_id scenario_env failing_fs [Path False [''x''], Path False [''y'']]) =
     Inr (?mv, ?del)"
    by code_simp
  have mf: "fst (move_file_to_dir scenario_env failing_fs (Path False [''y'', ''dog.jpg''])
          (Path False [''x'']) False) = Inl ShutilError"
    by code_simp
  have df: "fst (os_remove (move_files scenario_env failing_fs ?mv (Path False [''x'']))
          (Path False [''y'', ''cat3.jpg''])) = Inl FileNotFoundError"
    by code_simp
  have cl: "remove_directories
       (remove_files (move_files scenario_env failing_fs ?mv (Path False [''x''])) ?del)
       (tl [Path False [''x''], Path False [''y'']]) = (Inr (), ?end)"
    by code_simp
  from exit_code_zero [OF h1 refl h3 h4, THEN conjunct2, THEN mp, OF conjI [OF j mk]]
  obtain mv del
    where p': "plan (resolved_output ?ns) (images_id scenario_env failing_fs (dir_list ?ns)) =
        Inr (mv, del)"
      and r: "\<forall>fs4. remove_directories
                 (remove_files (move_files scenario_env failing_fs mv (resolved_output ?ns)) del)
                 (tl (dir_list ?ns)) = (Inr (), fs4) \<longrightarrow>
               main scenario_env 3 (Some [''prog'', ''x'', ''y'']) failing_fs = (Returned 0, fs4)"
    by blast
  from p' p have e: "mv = ?mv" "del = ?del" unfolding out dl by simp_all
  from r cl have res: "main scenario_env 3 (Some [''prog'', ''x'', ''y'']) failing_fs =
      (Returned 0, ?end)"
    unfolding e out dl by blast
  show ?thesis
    by (intro conjI) (rule h3 h4 j f p mf df res)+
qed

text \<open>
  C2 fails on the code when the output directory is one of the directories given after
  the main one: the cleanup removes every directory of the list but the first, and the
  output directory is then not the first. In the scenario with \<^verbatim>\<open>-o y\<close> the run returns
  \<open>0\<close> having removed \<open>y\<close>, the output directory, with all that was moved into it, and
  having kept \<open>x\<close>.
\<close>

theorem output_among_directories_is_removed:
  "resolved_output (scenario_args (Some (Path False [''y'']))) = Path False [''y''] \<and>
   dir_list (scenario_args (Some (Path False [''y'']))) = [Path False [''x''], Path False [''y'']] \<and>
   run scenario_env (scenario_args (Some (Path False [''y'']))) scenario_fs =
     (Returned 0, [(Path False [''x''], Dir)])"
  by code_simp

section \<open>Moving one file (C9)\<close>

lemma map_of_filter_key:
  "map_of (filter (\<lambda>(p, e). P p) fs) q = (if P q then map_of fs q else None)"
  by (induction fs) auto

lemma lookup_File_parts: "lookup fs p = Some (File c) \<Longrightarrow> parts p \<noteq> []"
  by (auto simp: lookup_def split: if_splits)

lemma not_is_dir_parts: "\<not> is_dir fs p \<Longrightarrow> parts p \<noteq> []"
  by (auto simp: is_dir_def lookup_def)

lemma os_rename_file:
  assumes src: "lookup fs src = Some (File c)"
    and par: "is_dir fs (parent tgt)"
    and tgt: "\<not> is_dir fs tgt"
    and ne: "tgt \<noteq> src"
  shows "\<exists>fs'. os_rename fs src tgt = (Inr tgt, fs') \<and>
           (\<forall>q. lookup fs' q =
              (if q = tgt then Some (File c) else if q = src then None else lookup fs q))"
proof -
  let ?fs' = "filter (\<lambda>(p, e). p \<noteq> src \<and> p \<noteq> tgt) fs @ [(tgt, File c)]"
  have r: "os_rename fs src tgt = (Inr tgt, ?fs')"
    using assms by (simp add: os_rename_def)
  have ps: "parts src \<noteq> []" using src by (rule lookup_File_parts)
  have pt: "parts tgt \<noteq> []" using tgt by (rule not_is_dir_parts)
  have "lookup ?fs' q =
      (if q = tgt then Some (File c) else if q = src then None else lookup fs q)" for q
  proof (cases "parts q = []")
    case True
    with ps pt have "q \<noteq> src" "q \<noteq> tgt" by auto
    with True show ?thesis by (simp add: lookup_def)
  next
    case False
    then show ?thesis
      by (simp add: lookup_def map_of_filter_key map_add_def split: option.splits)
  qed
  with r show ?thesis by blast
qed

lemma set_string_of_nat: "set (string_of_nat n) \<subseteq> set ''0123456789''"
proof (induction n rule: string_of_nat.induct)
  case (1 n)
  have d: "''0123456789'' ! k \<in> set ''0123456789''" if "k < 10" for k
    by (rule nth_mem) (use that in simp)
  show ?case
  proof (cases "n < 10")
    case True
    with d [of n] show ?thesis by (subst string_of_nat.simps) simp
  next
    case False
    have "n mod 10 < 10" by simp
    with d [of "n mod 10"] 1 False show ?thesis
      by (subst string_of_nat.simps) simp
  qed
qed

lemma string_of_nat_nonempty: "string_of_nat n \<noteq> []"
  by (subst string_of_nat.simps) simp

lemma stem_suffix: "stem p @ suffix p = name p"
  by (simp add: stem_def suffix_def Let_def)

lemma set_stem: "set (stem p) \<subseteq> set (name p)"
  by (auto simp: stem_def Let_def dest: in_set_takeD)

lemma set_suffix: "set (suffix p) \<subseteq> set (name p)"
  by (auto simp: suffix_def Let_def dest: in_set_dropD)

lemma randint_range: "lo \<le> hi \<Longrightarrow> lo \<le> randint lo hi r \<and> randint lo hi r \<le> hi"
proof -
  assume "lo \<le> hi"
  have "r mod (hi - lo + 1) < hi - lo + 1" by simp
  with \<open>lo \<le> hi\<close> show ?thesis unfolding randint_def by linarith
qed

lemma name_last: "parts p \<noteq> [] \<Longrightarrow> name p = last (parts p)"
  by (cases "parts p") (simp_all add: name_def)

lemma parent_joinpath: "n \<noteq> [] \<Longrightarrow> parent (joinpath d n) = d"
  by (simp add: parent_def joinpath_def)


text \<open>
  C9: \<^verbatim>\<open>move_file_to_dir\<close> on a regular file and a destination directory. When the
  destination holds a file of the source's name and \<open>replace\<close> is false, the source is
  renamed first, in its own directory, to its stem followed by a number from 0 to 10 and
  its suffix, and the renamed file is what is moved: when the new name is free at the
  destination, the file ends there under the new name, and the file that was in the way
  is untouched. When the destination holds no file of the source's name, the source is
  moved as it is, and ends at the destination under its own name when that name is free.
\<close>

theorem move_file_to_dir_renames_on_collision:
  fixes E fs src dst replace c
  defines "new_name \<equiv> stem src @ string_of_nat (randint 0 10 (draw E src)) @ suffix src"
    and "renamed \<equiv> Path (absolute src) (butlast (parts src) @
            [stem src @ string_of_nat (randint 0 10 (draw E src)) @ suffix src])"
  assumes src_file: "lookup fs src = Some (File c)"
    and into: "is_dir fs dst"
    and slash: "CHR ''/'' \<notin> set (name src)"
    and home: "is_dir fs (parent src)"
  shows
    "(is_file fs (joinpath dst (name src)) \<and> \<not> replace \<longrightarrow>
        randint 0 10 (draw E src) \<le> 10 \<and>
        parent renamed = parent src \<and>
        move_file_to_dir E fs src dst replace =
          (case os_rename fs src renamed of
             (Inl e, fs') \<Rightarrow> (Inl e, fs')
           | (Inr p, fs') \<Rightarrow> shutil_move fs' p dst) \<and>
        (\<not> is_dir fs renamed \<and> \<not> exists fs (joinpath dst new_name) \<and> parent src \<noteq> dst \<longrightarrow>
           (\<exists>fs1 fs2.
              os_rename fs src renamed = (Inr renamed, fs1) \<and>
              move_file_to_dir E fs src dst replace = (Inr (joinpath dst new_name), fs2) \<and>
              (\<forall>q. lookup fs2 q =
                 (if q = joinpath dst new_name then Some (File c)
                  else if q = src \<or> q = renamed then None
                  else lookup fs q))))) \<and>
     (\<not> is_file fs (joinpath dst (name src)) \<longrightarrow>
        move_file_to_dir E fs src dst replace = shutil_move fs src dst \<and>
        (\<not> exists fs (joinpath dst (name src)) \<longrightarrow>
           (\<exists>fs'. move_file_to_dir E fs src dst replace = (Inr (joinpath dst (name src)), fs') \<and>
              (\<forall>q. lookup fs' q =
                 (if q = joinpath dst (name src) then Some (File c)
                  else if q = src then None
                  else lookup fs q)))))"
proof -
  have ps: "parts src \<noteq> []" using src_file by (rule lookup_File_parts)
  have nm: "name src = last (parts src)" using ps by (rule name_last)
  have digits: "string_of_nat (randint 0 10 (draw E src)) \<noteq> []"
    by (rule string_of_nat_nonempty)
  have new_ne: "new_name \<noteq> []" using digits by (simp add: new_name_def)
  have new_name_ne: "new_name \<noteq> name src"
  proof
    assume "new_name = name src"
    then have "length new_name = length (stem src @ suffix src)" by (simp add: stem_suffix)
    with digits show False by (simp add: new_name_def)
  qed
  have ren_ne: "renamed \<noteq> src"
  proof
    assume "renamed = src"
    then have "parts renamed = parts src" by simp
    then have "butlast (parts src) @ [new_name] = parts src"
      by (simp add: renamed_def new_name_def)
    then have "last (parts src) = new_name" by (metis last_snoc)
    with nm new_name_ne show False by simp
  qed
  have par_ren: "parent renamed = parent src"
    by (simp add: parent_def renamed_def)
  have name_ren: "name renamed = new_name"
    by (simp add: name_last renamed_def new_name_def)
  have A: "randint 0 10 (draw E src) \<le> 10 \<and>
        parent renamed = parent src \<and>
        move_file_to_dir E fs src dst replace =
          (case os_rename fs src renamed of
             (Inl e, fs') \<Rightarrow> (Inl e, fs')
           | (Inr p, fs') \<Rightarrow> shutil_move fs' p dst) \<and>
        (\<not> is_dir fs renamed \<and> \<not> exists fs (joinpath dst new_name) \<and> parent src \<noteq> dst \<longrightarrow>
           (\<exists>fs1 fs2.
              os_rename fs src renamed = (Inr renamed, fs1) \<and>
              move_file_to_dir E fs src dst replace = (Inr (joinpath dst new_name), fs2) \<and>
              (\<forall>q. lookup fs2 q =
                 (if q = joinpath dst new_name then Some (File c)
                  else if q = src \<or> q = renamed then None
                  else lookup fs q))))"
    if coll: "is_file fs (joinpath dst (name src))" and nr: "\<not> replace"
  proof -
    have rng: "randint 0 10 (draw E src) \<le> 10"
      using randint_range [of 0 10 "draw E src"] by simp
    have name_ne: "name src \<noteq> []"
    proof
      assume "name src = []"
      with coll have "is_file fs dst" by (simp add: joinpath_def)
      with into show False by (simp add: is_file_def is_dir_def)
    qed
    have no_slash: "CHR ''/'' \<notin> set new_name"
    proof -
      have "CHR ''/'' \<notin> set (string_of_nat (randint 0 10 (draw E src)))"
        using set_string_of_nat [of "randint 0 10 (draw E src)"] by auto
      moreover have "CHR ''/'' \<notin> set (stem src)" using slash set_stem by blast
      moreover have "CHR ''/'' \<notin> set (suffix src)" using slash set_suffix by blast
      ultimately show ?thesis by (simp add: new_name_def)
    qed
    have ws: "with_stem src (stem src @ string_of_nat (randint 0 10 (draw E src))) = Inr renamed"
      using name_ne new_ne no_slash
      by (simp add: with_stem_def Let_def new_name_def renamed_def)
    have flow: "move_file_to_dir E fs src dst replace =
          (case os_rename fs src renamed of
             (Inl e, fs') \<Rightarrow> (Inl e, fs')
           | (Inr p, fs') \<Rightarrow> shutil_move fs' p dst)"
      using coll nr ws by (simp add: move_file_to_dir_def Let_def)
    have eff: "\<exists>fs1 fs2.
              os_rename fs src renamed = (Inr renamed, fs1) \<and>
              move_file_to_dir E fs src dst replace = (Inr (joinpath dst new_name), fs2) \<and>
              (\<forall>q. lookup fs2 q =
                 (if q = joinpath dst new_name then Some (File c)
                  else if q = src \<or> q = renamed then None
                  else lookup fs q))"
      if nd: "\<not> is_dir fs renamed" and free: "\<not> exists fs (joinpath dst new_name)"
        and other: "parent src \<noteq> dst"
    proof -
      let ?real = "joinpath dst new_name"
      from os_rename_file [OF src_file _ nd ren_ne] home par_ren
      obtain fs1 where r1: "os_rename fs src renamed = (Inr renamed, fs1)"
        and l1: "\<And>q. lookup fs1 q =
              (if q = renamed then Some (File c) else if q = src then None else lookup fs q)"
        by auto
      have dst_ne: "dst \<noteq> src" "dst \<noteq> renamed"
        using into src_file nd by (auto simp: is_dir_def)
      have real_ne: "?real \<noteq> src" "?real \<noteq> renamed"
      proof -
        show "?real \<noteq> src" using free src_file by (auto simp: exists_def)
        show "?real \<noteq> renamed"
        proof
          assume "?real = renamed"
          then have "parent ?real = parent renamed" by simp
          with new_ne par_ren other show False by (simp add: parent_joinpath)
        qed
      qed
      have d1: "is_dir fs1 dst" using into dst_ne by (simp add: is_dir_def l1)
      have e1: "\<not> exists fs1 ?real" using free real_ne by (simp add: exists_def l1)
      have f1: "lookup fs1 renamed = Some (File c)" by (simp add: l1)
      have p1: "is_dir fs1 (parent ?real)" using d1 new_ne by (simp add: parent_joinpath)
      have n1: "\<not> is_dir fs1 ?real" using e1 by (simp add: exists_def is_dir_def)
      from os_rename_file [OF f1 p1 n1 real_ne(2)]
      obtain fs2 where r2: "os_rename fs1 renamed ?real = (Inr ?real, fs2)"
        and l2: "\<And>q. lookup fs2 q =
              (if q = ?real then Some (File c) else if q = renamed then None else lookup fs1 q)"
        by auto
      have mv: "shutil_move fs1 renamed dst = (Inr ?real, fs2)"
        using d1 e1 r2 by (simp add: shutil_move_def Let_def name_ren)
      have res: "move_file_to_dir E fs src dst replace = (Inr ?real, fs2)"
        using flow r1 mv by simp
      have "lookup fs2 q =
                 (if q = ?real then Some (File c)
                  else if q = src \<or> q = renamed then None
                  else lookup fs q)" for q
        by (simp add: l2 l1)
      with r1 res show ?thesis by blast
    qed
    from rng par_ren flow eff show ?thesis by blast
  qed
  have B: "move_file_to_dir E fs src dst replace = shutil_move fs src dst \<and>
        (\<not> exists fs (joinpath dst (name src)) \<longrightarrow>
           (\<exists>fs'. move_file_to_dir E fs src dst replace = (Inr (joinpath dst (name src)), fs') \<and>
              (\<forall>q. lookup fs' q =
                 (if q = joinpath dst (name src) then Some (File c)
                  else if q = src then None
                  else lookup fs q))))"
    if nc: "\<not> is_file fs (joinpath dst (name src))"
  proof -
    have flow: "move_file_to_dir E fs src dst replace = shutil_move fs src dst"
      using nc by (simp add: move_file_to_dir_def Let_def)
    have eff: "\<exists>fs'. move_file_to_dir E fs src dst replace = (Inr (joinpath dst (name src)), fs') \<and>
              (\<forall>q. lookup fs' q =
                 (if q = joinpath dst (name src) then Some (File c)
                  else if q = src then None
                  else lookup fs q))"
      if free: "\<not> exists fs (joinpath dst (name src))"
    proof -
      let ?real = "joinpath dst (name src)"
      have name_ne: "name src \<noteq> []"
      proof
        assume "name src = []"
        with free have "\<not> exists fs dst" by (simp add: joinpath_def)
        with into show False by (simp add: exists_def is_dir_def)
      qed
      have real_ne: "?real \<noteq> src" using free src_file by (auto simp: exists_def)
      have p: "is_dir fs (parent ?real)" using into name_ne by (simp add: parent_joinpath)
      have n: "\<not> is_dir fs ?real" using free by (simp add: exists_def is_dir_def)
      from os_rename_file [OF src_file p n real_ne]
      obtain fs' where r: "os_rename fs src ?real = (Inr ?real, fs')"
        and l: "\<And>q. lookup fs' q =
              (if q = ?real then Some (File c) else if q = src then None else lookup fs q)"
        by auto
      have "shutil_move fs src dst = (Inr ?real, fs')"
        using into free r by (simp add: shutil_move_def Let_def)
      with flow l show ?thesis by auto
    qed
    from flow eff show ?thesis by blast
  qed
  from A B show ?thesis by blast
qed


theorem move_file_to_dir_renames_on_collision_witness:
  "lookup scenario_fs (Path False [''x'', ''cat.jpg'']) = Some (File 1) \<and>
   is_dir scenario_fs (Path False [''y'']) \<and>
   is_dir scenario_fs (parent (Path False [''x'', ''cat.jpg''])) \<and>
   is_file scenario_fs (joinpath (Path False [''y'']) (name (Path False [''x'', ''cat.jpg'']))) \<and>
   move_file_to_dir scenario_env scenario_fs (Path False [''x'', ''cat.jpg''])
       (Path False [''y'']) False =
     (Inr (Path False [''y'', ''cat3.jpg'']),
      [(Path False [''x''], Dir),
       (Path False [''y''], Dir),
       (Path False [''x'', ''dog.jpg''], File 2),
       (Path False [''y'', ''cat.jpg''], File 1),
       (Path False [''y'', ''notes.txt''], File 0),
       (Path False [''y'', ''cat3.jpg''], File 1)])"
proof -
  have h1: "lookup scenario_fs (Path False [''x'', ''cat.jpg'']) = Some (File 1)"
    by code_simp
  have h2: "is_dir scenario_fs (Path False [''y''])"
    by code_simp
  have h3: "CHR ''/'' \<notin> set (name (Path False [''x'', ''cat.jpg'']))"
    by code_simp
  have h4: "is_dir scenario_fs (parent (Path False [''x'', ''cat.jpg'']))"
    by code_simp
  have c: "is_file scenario_fs
      (joinpath (Path False [''y'']) (name (Path False [''x'', ''cat.jpg'']))) \<and> \<not> False"
    by code_simp
  note flow = move_file_to_dir_renames_on_collision
    [OF h1 h2 h3 h4, where E = scenario_env and replace = False,
      THEN conjunct1, THEN mp, OF c, THEN conjunct2, THEN conjunct2, THEN conjunct1]
  have r: "move_file_to_dir scenario_env scenario_fs (Path False [''x'', ''cat.jpg''])
       (Path False [''y'']) False =
     (Inr (Path False [''y'', ''cat3.jpg'']),
      [(Path False [''x''], Dir),
       (Path False [''y''], Dir),
       (Path False [''x'', ''dog.jpg''], File 2),
       (Path False [''y'', ''cat.jpg''], File 1),
       (Path False [''y'', ''notes.txt''], File 0),
       (Path False [''y'', ''cat3.jpg''], File 1)])"
    unfolding flow by code_simp
  from c have c': "is_file scenario_fs
      (joinpath (Path False [''y'']) (name (Path False [''x'', ''cat.jpg''])))"
    by (rule conjunct1)
  show ?thesis
    by (intro conjI) (rule h1 h2 h4 c' r)+
qed

end
